theory Spec2Isabelle
  imports Complex_Main "HOL-Library.Sublist"
begin

section \<open>Data model\<close>

text \<open>
  A movie candidate is a Python dictionary. Both rankers read the key \<open>'id'\<close> by
  subscription (it has to be present) and the keys \<open>'title'\<close>, \<open>'overview'\<close> and
  \<open>'popularity'\<close> through \<open>dict.get\<close> with a default, so these three may be absent.
  Python numbers are modelled as exact rationals: the popularity, the scores and the
  probabilities are \<open>rat\<close>, and the float literal \<open>1.5\<close> is \<open>3 / 2\<close>. Rounding of
  IEEE floating point is not modelled.
\<close>

record movie =
  id_val :: int
  title :: "string option"
  overview :: "string option"
  popularity :: "rat option"

text \<open>\<open>movie.get(key, default)\<close> for the three optional keys.\<close>

definition get_title :: "movie \<Rightarrow> string" where
  "get_title m = (case title m of None \<Rightarrow> [] | Some s \<Rightarrow> s)"

definition get_overview :: "movie \<Rightarrow> string" where
  "get_overview m = (case overview m of None \<Rightarrow> [] | Some s \<Rightarrow> s)"

definition get_popularity :: "movie \<Rightarrow> rat" where
  "get_popularity m = (case popularity m of None \<Rightarrow> 0 | Some p \<Rightarrow> p)"

section \<open>The string operations of Python used by the rankers\<close>

text \<open>
  Strings are lists of 8-bit characters. \<open>str.lower\<close> is modelled on the ASCII letters
  and \<open>str.split()\<close> on the ASCII characters for which \<open>str.isspace\<close> holds (tab,
  line feed, vertical tab, form feed, carriage return, the four separators
  \<open>0x1C\<close> to \<open>0x1F\<close> and the space); every other character is left alone.
\<close>

definition lower_char :: "char \<Rightarrow> char" where
  "lower_char c =
     (let n = (of_char c :: nat) in if 65 \<le> n \<and> n \<le> 90 then char_of (n + 32) else c)"

definition py_lower :: "string \<Rightarrow> string" where
  "py_lower s = map lower_char s"

definition isspace :: "char \<Rightarrow> bool" where
  "isspace c = (let n = (of_char c :: nat) in (9 \<le> n \<and> n \<le> 13) \<or> (28 \<le> n \<and> n \<le> 32))"

text \<open>
  \<open>s.split()\<close>: the maximal runs of non-space characters, in order; \<open>cur\<close> is the run
  being read.
\<close>

fun split_from :: "string \<Rightarrow> string \<Rightarrow> string list" where
  "split_from cur [] = (if cur = [] then [] else [cur])"
| "split_from cur (c # cs) =
     (if isspace c then (if cur = [] then split_from [] cs else cur # split_from [] cs)
      else split_from (cur @ [c]) cs)"

definition py_split :: "string \<Rightarrow> string list" where
  "py_split s = split_from [] s"

text \<open>\<open>term in title\<close> on strings is the substring test, \<^const>\<open>sublist\<close>.\<close>

section \<open>classical\_search\<close>

text \<open>
  The score of one movie in \<open>classical_search\<close> (the body of its loop up to the
  assignment of \<open>score\<close>); \<open>query_words\<close> is the set built before the loop.
\<close>

definition classical_score :: "string set \<Rightarrow> movie \<Rightarrow> rat" where
  "classical_score query_words m =
     (let title_words = set (py_split (py_lower (get_title m)));
          overview_words = set (py_split (py_lower (get_overview m)));
          title_matches = card (query_words \<inter> title_words) * 3;
          overview_matches = card (query_words \<inter> overview_words);
          pop = get_popularity m / 20
      in of_nat title_matches + of_nat overview_matches + pop)"

text \<open>One pass of the loop body on the pair \<open>(best_match, highest_score)\<close>.\<close>

definition classical_step :: "string set \<Rightarrow> movie \<Rightarrow> movie option \<times> rat \<Rightarrow> movie option \<times> rat" where
  "classical_step query_words m st =
     (let score = classical_score query_words m
      in if score > snd st then (Some m, score) else st)"

definition query_words_of :: "string \<Rightarrow> string set" where
  "query_words_of query = set (py_split (py_lower query))"

text \<open>\<open>None\<close> is Python's \<open>None\<close>; a dictionary with the key \<open>'id'\<close> is truthy.\<close>

definition classical_search :: "movie list \<Rightarrow> string \<Rightarrow> int option" where
  "classical_search movies query =
     (if movies = [] then None
      else (case fst (fold (classical_step (query_words_of query)) movies (None, - 1)) of
              Some best_match \<Rightarrow> Some (id_val best_match)
            | None \<Rightarrow> Some (id_val (hd movies))))"

text \<open>The scores the loop computes, in the order of the list.\<close>

definition classical_scores :: "movie list \<Rightarrow> string \<Rightarrow> rat list" where
  "classical_scores movies query = map (classical_score (query_words_of query)) movies"

section \<open>quantum\_search\<close>

text \<open>The score of one movie in \<open>quantum_search\<close>: \<open>query_terms\<close> is a list.\<close>

definition quantum_score :: "string \<Rightarrow> movie \<Rightarrow> rat" where
  "quantum_score query m =
     (let title' = py_lower (get_title m);
          overview' = py_lower (get_overview m);
          query_terms = py_split (py_lower query);
          title_score = (\<Sum>term' \<leftarrow> filter (\<lambda>term'. sublist term' title') query_terms. (3::nat));
          overview_score = (\<Sum>term' \<leftarrow> filter (\<lambda>term'. sublist term' overview') query_terms. (1::nat));
          pop = get_popularity m / 20
      in of_nat title_score + of_nat overview_score + pop)"

definition quantum_scores :: "movie list \<Rightarrow> string \<Rightarrow> rat list" where
  "quantum_scores movies query = map (quantum_score query) movies"

text \<open>\<open>total = sum(scores) or 1\<close> and the division of every score by it.\<close>

definition probabilities :: "movie list \<Rightarrow> string \<Rightarrow> rat list" where
  "probabilities movies query =
     (let scores = quantum_scores movies query;
          total = (if sum_list scores = 0 then 1 else sum_list scores)
      in map (\<lambda>score. score / total) scores)"

text \<open>
  \<open>int(math.sqrt(n))\<close>: the integer square root, computed without floats.
\<close>

fun isqrt :: "nat \<Rightarrow> nat" where
  "isqrt 0 = 0"
| "isqrt (Suc n) = (let r = isqrt n in if (r + 1) * (r + 1) \<le> Suc n then r + 1 else r)"

text \<open>
  \<open>max(xs)\<close> keeps the first of the largest items; \<open>xs.index(x)\<close> is the first
  position of \<open>x\<close>. The item looked up is in the list, so \<open>index\<close> does not raise.
\<close>

definition py_max :: "rat list \<Rightarrow> rat" where
  "py_max xs = fold (\<lambda>x m. if x > m then x else m) (tl xs) (hd xs)"

fun index_of :: "rat \<Rightarrow> rat list \<Rightarrow> nat" where
  "index_of x [] = 0"
| "index_of x (y # ys) = (if y = x then 0 else Suc (index_of x ys))"

definition max_idx :: "movie list \<Rightarrow> string \<Rightarrow> nat" where
  "max_idx movies query =
     (let ps = probabilities movies query in index_of (py_max ps) ps)"

text \<open>
  One pass of the amplification loop. \<open>boost\<close> is the list after
  \<open>amplified_probs[max_idx] *= 1.5\<close>; \<open>other_sum\<close> and \<open>reduction_factor\<close> are
  the two local variables; \<open>rescale\<close> is the inner loop over the indices.
\<close>

definition boost :: "nat \<Rightarrow> rat list \<Rightarrow> rat list" where
  "boost mi ps = ps[mi := ps ! mi * (3 / 2)]"

definition other_sum :: "nat \<Rightarrow> rat list \<Rightarrow> rat" where
  "other_sum mi ps = sum_list (boost mi ps) - boost mi ps ! mi"

definition reduction_factor :: "nat \<Rightarrow> rat list \<Rightarrow> rat" where
  "reduction_factor mi ps = (1 - boost mi ps ! mi) / other_sum mi ps"

definition rescale :: "nat \<Rightarrow> rat \<Rightarrow> rat list \<Rightarrow> rat list" where
  "rescale mi f ps =
     fold (\<lambda>i a. if i \<noteq> mi then a[i := a ! i * f] else a) [0..<length ps] ps"

definition amplify_step :: "nat \<Rightarrow> rat list \<Rightarrow> rat list" where
  "amplify_step mi ps =
     (if other_sum mi ps > 0 then rescale mi (reduction_factor mi ps) (boost mi ps)
      else boost mi ps)"

text \<open>The list after \<open>k\<close> passes of \<open>for _ in range(iterations)\<close>.\<close>

primrec amplify :: "nat \<Rightarrow> nat \<Rightarrow> rat list \<Rightarrow> rat list" where
  "amplify 0 mi ps = ps"
| "amplify (Suc k) mi ps = amplify_step mi (amplify k mi ps)"

definition amplified_probs :: "nat \<Rightarrow> movie list \<Rightarrow> string \<Rightarrow> rat list" where
  "amplified_probs k movies query =
     amplify k (max_idx movies query) (probabilities movies query)"

definition iterations :: "movie list \<Rightarrow> nat" where
  "iterations movies = isqrt (length movies)"

subsection \<open>The random source and \<open>random.choices\<close>\<close>

text \<open>
  One call of \<open>quantum_search\<close> draws at most three random values: the uniform float
  of \<open>random.choices\<close>, the uniform float of \<open>random.random()\<close> and the index that
  \<open>random.choice\<close> picks, \<open>randbelow n\<close>, which lies below \<open>n\<close>.
\<close>

record rng =
  u_choices :: rat
  u_anomaly :: rat
  randbelow :: "nat \<Rightarrow> nat"

definition rng_ok :: "rng \<Rightarrow> bool" where
  "rng_ok g = (0 \<le> u_choices g \<and> u_choices g < 1 \<and> 0 \<le> u_anomaly g \<and> u_anomaly g < 1
               \<and> (\<forall>n. 0 < n \<longrightarrow> randbelow g n < n))"

datatype error = ValueError

text \<open>\<open>itertools.accumulate\<close>: the running sums.\<close>

fun accumulate_from :: "rat \<Rightarrow> rat list \<Rightarrow> rat list" where
  "accumulate_from acc [] = []"
| "accumulate_from acc (w # ws) = (acc + w) # accumulate_from (acc + w) ws"

definition accumulate :: "rat list \<Rightarrow> rat list" where
  "accumulate ws = accumulate_from 0 ws"

text \<open>\<open>bisect.bisect_right(a, x, lo, hi)\<close>, the binary search of the standard library.\<close>

function bisect :: "rat list \<Rightarrow> rat \<Rightarrow> nat \<Rightarrow> nat \<Rightarrow> nat" where
  "bisect a x lo hi =
     (if lo < hi
      then (let mid = (lo + hi) div 2
            in if x < a ! mid then bisect a x lo mid else bisect a x (mid + 1) hi)
      else lo)"
  by pat_completeness auto
termination
  by (relation "measure (\<lambda>(a, x, lo, hi). hi - lo)") auto

text \<open>The equation of \<open>bisect\<close> is unfolded by hand only.\<close>

declare bisect.simps [simp del]

text \<open>
  \<open>random.choices(range(n), weights=weights, k=1)[0]\<close> as CPython implements it since
  version 3.9: the weights are accumulated, a total that is not positive raises
  \<open>ValueError\<close>, and the index is found by bisection of the running sums.
\<close>

definition choices :: "nat \<Rightarrow> rat list \<Rightarrow> rat \<Rightarrow> error + nat" where
  "choices n weights u =
     (let cum_weights = accumulate weights
      in if length cum_weights \<noteq> n then Inl ValueError
         else (let total = last cum_weights
               in if total \<le> 0 then Inl ValueError
                  else Inr (bisect cum_weights (u * total) 0 (n - 1))))"

text \<open>
  The anomaly branch: \<open>available_indices\<close> is \<open>list(range(n))\<close> without the chosen
  index, and \<open>random.choice\<close> reads it at \<open>randbelow\<close> of its length.
\<close>

definition anomaly :: "nat \<Rightarrow> rng \<Rightarrow> nat \<Rightarrow> nat" where
  "anomaly n g chosen_idx =
     (if u_anomaly g < 5 / 100
      then (let available_indices = remove1 chosen_idx [0..<n]
            in if available_indices \<noteq> []
               then available_indices ! randbelow g (length available_indices)
               else chosen_idx)
      else chosen_idx)"

text \<open>
  \<open>quantum_search\<close>: \<open>Inl\<close> is a raised exception, \<open>Inr None\<close> the returned \<open>None\<close>.
  The message printed in the anomaly branch is not part of the result.
\<close>

definition quantum_search :: "movie list \<Rightarrow> string \<Rightarrow> rng \<Rightarrow> error + int option" where
  "quantum_search movies query g =
     (if movies = [] then Inr None
      else (let n = length movies;
                weights = amplified_probs (iterations movies) movies query
            in case choices n weights (u_choices g) of
                 Inl e \<Rightarrow> Inl e
               | Inr chosen_idx \<Rightarrow> Inr (Some (id_val (movies ! anomaly n g chosen_idx)))))"

text \<open>
  A query matches a movie by whole tokens when its terms are pairwise distinct and every
  term found inside the lower-cased title or overview is also one of its tokens.
\<close>

definition whole_token_query :: "string \<Rightarrow> movie \<Rightarrow> bool" where
  "whole_token_query query m =
     (let query_terms = py_split (py_lower query);
          title' = py_lower (get_title m);
          overview' = py_lower (get_overview m)
      in distinct query_terms
         \<and> (\<forall>t\<in>set query_terms.
               (sublist t title' \<longrightarrow> t \<in> set (py_split title'))
             \<and> (sublist t overview' \<longrightarrow> t \<in> set (py_split overview'))))"

section \<open>Example inputs\<close>

definition the_matrix :: movie where
  "the_matrix = \<lparr>id_val = 1, title = Some ''The Matrix'',
     overview = Some ''A hacker discovers reality is simulated'', popularity = Some 80\<rparr>"

definition matrix_reloaded :: movie where
  "matrix_reloaded = \<lparr>id_val = 2, title = Some ''Matrix Reloaded'',
     overview = Some ''Neo fights machines'', popularity = Some 40\<rparr>"

definition matrix_revolutions :: movie where
  "matrix_revolutions = \<lparr>id_val = 3, title = Some ''Matrix Revolutions'',
     overview = None, popularity = Some 40\<rparr>"

definition alien :: movie where
  "alien = \<lparr>id_val = 7, title = Some ''Alien'', overview = Some ''In space'',
     popularity = Some 0\<rparr>"

definition heat :: movie where
  "heat = \<lparr>id_val = 8, title = Some ''Heat'', overview = None, popularity = None\<rparr>"

definition solo :: movie where
  "solo = \<lparr>id_val = 9, title = Some ''Solo'', overview = None, popularity = Some 20\<rparr>"

definition blockbuster :: movie where
  "blockbuster = \<lparr>id_val = 4, title = None, overview = None, popularity = Some 80\<rparr>"

definition sleeper :: movie where
  "sleeper = \<lparr>id_val = 5, title = None, overview = None, popularity = Some 20\<rparr>"

definition steady_rng :: rng where
  "steady_rng = \<lparr>u_choices = 1 / 2, u_anomaly = 1 / 2, randbelow = (\<lambda>n. 0)\<rparr>"

section \<open>Facts about the helper functions\<close>

text \<open>\<open>isqrt\<close> is the floor of the square root.\<close>

lemma isqrt_bounds: "isqrt n * isqrt n \<le> n \<and> n < (isqrt n + 1) * (isqrt n + 1)"
  by (induction n) (auto simp: Let_def)

lemma py_max_fold_mem: "fold (\<lambda>x m. if x > m then x else m) xs (a::rat) \<in> insert a (set xs)"
  by (induction xs arbitrary: a) auto

lemma py_max_mem: "ps \<noteq> [] \<Longrightarrow> py_max ps \<in> set ps"
  using py_max_fold_mem [of "tl ps" "hd ps"] by (cases ps) (auto simp: py_max_def)

lemma index_of_less: "x \<in> set xs \<Longrightarrow> index_of x xs < length xs"
  by (induction xs) auto

lemma length_probabilities: "length (probabilities movies query) = length movies"
  by (simp add: probabilities_def quantum_scores_def Let_def)

lemma max_idx_less:
  assumes "movies \<noteq> []"
  shows "max_idx movies query < length movies"
proof -
  let ?ps = "probabilities movies query"
  have "?ps \<noteq> []" using assms length_probabilities [of movies query] by auto
  then have "index_of (py_max ?ps) ?ps < length ?ps"
    by (intro index_of_less py_max_mem)
  then show ?thesis by (simp add: max_idx_def Let_def length_probabilities)
qed

subsection \<open>The inner loop of the amplification\<close>

lemma length_boost: "length (boost mi ps) = length ps"
  by (simp add: boost_def)

lemma rescale_upto:
  "k \<le> length ps \<Longrightarrow>
   length (fold (\<lambda>i a. if i \<noteq> mi then a[i := a ! i * f] else a) [0..<k] ps) = length ps \<and>
   (\<forall>i<length ps. fold (\<lambda>i a. if i \<noteq> mi then a[i := a ! i * f] else a) [0..<k] ps ! i
       = (if i < k \<and> i \<noteq> mi then ps ! i * f else ps ! i))"
proof (induction k)
  case 0
  then show ?case by simp
next
  case (Suc k)
  then show ?case by (auto simp: nth_list_update less_Suc_eq)
qed

lemma length_rescale: "length (rescale mi f ps) = length ps"
  using rescale_upto [of "length ps" ps mi f] by (simp add: rescale_def)

lemma nth_rescale:
  "i < length ps \<Longrightarrow> rescale mi f ps ! i = (if i \<noteq> mi then ps ! i * f else ps ! i)"
  using rescale_upto [of "length ps" ps mi f] by (simp add: rescale_def)

lemma rescale_eq_map:
  "rescale mi f ps = map (\<lambda>i. if i \<noteq> mi then ps ! i * f else ps ! i) [0..<length ps]"
  by (rule nth_equalityI) (simp_all add: length_rescale nth_rescale)

lemma sum_list_rescale:
  assumes "mi < length ps"
  shows "sum_list (rescale mi f ps) = ps ! mi + f * (sum_list ps - ps ! mi)"
proof -
  have fin: "finite {0..<length ps}" and mem: "mi \<in> {0..<length ps}"
    using assms by auto
  have "sum_list (rescale mi f ps) = (\<Sum>i = 0..<length ps. if i \<noteq> mi then ps ! i * f else ps ! i)"
    by (simp add: rescale_eq_map interv_sum_list_conv_sum_set_nat)
  also have "\<dots> = ps ! mi + (\<Sum>i\<in>{0..<length ps} - {mi}. ps ! i * f)"
    by (subst sum.remove [OF fin mem]) simp
  also have "(\<Sum>i\<in>{0..<length ps} - {mi}. ps ! i * f) = f * (\<Sum>i\<in>{0..<length ps} - {mi}. ps ! i)"
    by (simp add: sum_distrib_left mult.commute)
  also have "(\<Sum>i\<in>{0..<length ps} - {mi}. ps ! i) = sum_list ps - ps ! mi"
    using sum.remove [OF fin mem, of "\<lambda>i. ps ! i"] by (simp add: sum_list_sum_nth)
  finally show ?thesis .
qed

lemma sum_list_amplify_step:
  assumes "mi < length ps" and "other_sum mi ps > 0"
  shows "sum_list (amplify_step mi ps) = 1"
proof -
  let ?b = "boost mi ps"
  have len: "mi < length ?b" using assms(1) by (simp add: length_boost)
  have os: "sum_list ?b - ?b ! mi = other_sum mi ps" by (simp add: other_sum_def)
  have "sum_list (amplify_step mi ps) = ?b ! mi + reduction_factor mi ps * (sum_list ?b - ?b ! mi)"
    using assms(2) by (simp add: amplify_step_def sum_list_rescale [OF len])
  also have "\<dots> = ?b ! mi + (1 - ?b ! mi)"
    using assms(2) by (simp add: os reduction_factor_def)
  finally show ?thesis by simp
qed

lemma length_amplify_step: "length (amplify_step mi ps) = length ps"
  by (simp add: amplify_step_def length_rescale length_boost)

lemma length_amplify: "length (amplify k mi ps) = length ps"
  by (induction k) (simp_all add: length_amplify_step)

section \<open>Empty input and the worked example\<close>

text \<open>
  Claim C5. For every query, on the empty candidate list \<open>classical_search\<close> and
  \<open>quantum_search\<close> both return \<open>None\<close>, the "no selection" value, and neither
  raises, whatever the random source.
\<close>

theorem empty_input_no_selection:
  "classical_search [] query = None \<and> quantum_search [] query g = Inr None"
  by (simp add: classical_search_def quantum_search_def)

text \<open>
  Claim C6. On the two candidates The Matrix (popularity 80) and Matrix Reloaded
  (popularity 40) with the query "matrix hacker", \<open>classical_search\<close> computes the
  scores 8 and 5 and returns the id 1.
\<close>

theorem matrix_example:
  "classical_scores [the_matrix, matrix_reloaded] ''matrix hacker'' = [8, 5]
   \<and> classical_search [the_matrix, matrix_reloaded] ''matrix hacker'' = Some 1"
  by code_simp

section \<open>Candidates whose scores are all zero\<close>

lemma accumulate_from_zeros: "accumulate_from 0 (replicate n 0) = replicate n 0"
  by (induction n) simp_all

lemma boost_zeros: "mi < n \<Longrightarrow> boost mi (replicate n 0) = replicate n 0"
  by (simp add: boost_def list_eq_iff_nth_eq nth_list_update)

lemma amplify_step_zeros: "mi < n \<Longrightarrow> amplify_step mi (replicate n 0) = replicate n 0"
  by (simp add: amplify_step_def other_sum_def boost_zeros sum_list_replicate)

lemma amplify_zeros: "mi < n \<Longrightarrow> amplify k mi (replicate n 0) = replicate n 0"
  by (induction k) (simp_all add: amplify_step_zeros)

text \<open>
  When every score is zero the guard \<open>sum(scores) or 1\<close> prevents the division by
  zero, every probability is 0, the amplification leaves the zeros as they are, and
  \<open>random.choices\<close> rejects the weights: the call raises for every random source.
\<close>

lemma quantum_search_zero_scores:
  assumes "movies \<noteq> []" and "\<forall>m\<in>set movies. quantum_score query m = 0"
  shows "quantum_search movies query g = Inl ValueError"
proof -
  have sc: "quantum_scores movies query = replicate (length movies) 0"
    using assms(2) by (simp add: quantum_scores_def map_replicate_const [symmetric] cong: map_cong)
  have "probabilities movies query = replicate (length movies) 0"
    by (simp add: probabilities_def sc)
  then have "amplified_probs (iterations movies) movies query = replicate (length movies) 0"
    using max_idx_less [OF assms(1), of query] by (simp add: amplified_probs_def amplify_zeros)
  then show ?thesis
    using assms(1) by (simp add: quantum_search_def choices_def accumulate_def accumulate_from_zeros)
qed

text \<open>
  Claim C1. The claim is that on candidates whose scores are all zero
  \<open>quantum_search\<close> returns an id of the list and does not raise. On the candidates
  Alien (popularity 0) and Heat (no popularity) with the query "matrix" both scores
  are 0 and the call raises \<open>ValueError\<close>, for every random source.
\<close>

theorem quantum_search_zero_scores_example:
  "quantum_scores [alien, heat] ''matrix'' = [0, 0]
   \<and> quantum_search [alien, heat] ''matrix'' g = Inl ValueError"
  by code_simp

section \<open>A single candidate\<close>

lemma bisect_point: "bisect a x lo lo = lo"
  by (subst bisect.simps) simp

lemma classical_search_single: "classical_search [m] query = Some (id_val m)"
  by (simp add: classical_search_def classical_step_def Let_def)

lemma iterations_single: "iterations [m] = 1"
  by (simp add: iterations_def)

text \<open>
  With one candidate the anomaly branch finds no other index and keeps the chosen one,
  so \<open>quantum_search\<close> returns the candidate's id, unless its score is zero.
\<close>

lemma quantum_search_single:
  "quantum_search [m] query g =
     (if quantum_score query m = 0 then Inl ValueError else Inr (Some (id_val m)))"
proof (cases "quantum_score query m = 0")
  case True
  then have "amplified_probs (iterations [m]) [m] query = [0]"
    by (simp add: iterations_single amplified_probs_def probabilities_def quantum_scores_def
        max_idx_def py_max_def amplify_step_def other_sum_def boost_def)
  then show ?thesis
    using True by (simp add: quantum_search_def choices_def accumulate_def)
next
  case False
  then have "amplified_probs (iterations [m]) [m] query = [3 / 2]"
    by (simp add: iterations_single amplified_probs_def probabilities_def quantum_scores_def
        max_idx_def py_max_def amplify_step_def other_sum_def boost_def)
  then show ?thesis
    using False
    by (simp add: quantum_search_def choices_def accumulate_def bisect_point anomaly_def)
qed

text \<open>
  Claim C4. The claim is that on a list of one candidate both rankers return its id.
  On the single candidate Alien (id 7, popularity 0) with the query "matrix",
  \<open>classical_search\<close> returns 7 and \<open>quantum_search\<close> raises \<open>ValueError\<close>, for
  every random source.
\<close>

theorem quantum_search_single_zero_example:
  "classical_search [alien] ''matrix'' = Some 7
   \<and> quantum_search [alien] ''matrix'' g = Inl ValueError"
  by code_simp

section \<open>The amplification loop\<close>

text \<open>
  The claim C3 as stated, that the vector sums to 1 after every pass, also after a pass
  that skips the rescaling, fails on one candidate with a positive score: the only
  pass finds \<open>other_sum = 0\<close>, skips the rescaling and leaves the sum at \<open>3 / 2\<close>.
\<close>

theorem normalization_skipped_counterexample:
  "iterations [solo] = 1
   \<and> other_sum (max_idx [solo] ''solo'') (amplified_probs 0 [solo] ''solo'') = 0
   \<and> sum_list (amplified_probs 1 [solo] ''solo'') = 3 / 2"
  by code_simp

text \<open>
  Claim C3, amended. For every candidate list and query, after every pass of the
  amplification loop that performs the rescaling (its \<open>other_sum\<close> is positive), the
  probability vector sums to exactly 1 in rational arithmetic.
\<close>

theorem normalization_after_rescale:
  assumes "k < iterations movies"
    and "other_sum (max_idx movies query) (amplified_probs k movies query) > 0"
  shows "sum_list (amplified_probs (Suc k) movies query) = 1"
proof -
  have "movies \<noteq> []" using assms(1) by (auto simp: iterations_def)
  then have "max_idx movies query < length (amplified_probs k movies query)"
    by (simp add: amplified_probs_def length_amplify length_probabilities max_idx_less)
  then show ?thesis
    using assms(2) by (simp add: amplified_probs_def sum_list_amplify_step)
qed

theorem normalization_after_rescale_witness:
  "0 < iterations [the_matrix, matrix_reloaded]
   \<and> other_sum (max_idx [the_matrix, matrix_reloaded] ''matrix hacker'')
        (amplified_probs 0 [the_matrix, matrix_reloaded] ''matrix hacker'') > 0
   \<and> sum_list (amplified_probs (Suc 0) [the_matrix, matrix_reloaded] ''matrix hacker'') = 1"
proof -
  have h1: "0 < iterations [the_matrix, matrix_reloaded]" by code_simp
  have h2: "other_sum (max_idx [the_matrix, matrix_reloaded] ''matrix hacker'')
        (amplified_probs 0 [the_matrix, matrix_reloaded] ''matrix hacker'') > 0" by code_simp
  show ?thesis using h1 h2 normalization_after_rescale [OF h1 h2] by simp
qed

text \<open>
  Claim C10. There is a non-empty candidate list and a query for which every probability
  is non-negative before the amplification loop, the leading probability exceeds
  \<open>2 / 3\<close>, the amplification raises the leading entry above 1, the rescaling is
  performed with a negative \<open>reduction_factor\<close>, and the vector the loop hands to
  the sampling has a strictly negative entry: the loop does not keep the weights
  non-negative. (\<^const>\<open>list_all\<close> says that the predicate holds of every element of
  the list.) The candidates are two movies of popularity 80 and 20 and the query is
  empty: the vector \<open>[4/5, 1/5]\<close> becomes \<open>[6/5, - 1/5]\<close>.
\<close>

theorem amplification_negative_weight:
  "\<exists>movies query.
     movies \<noteq> []
     \<and> list_all (\<lambda>p. 0 \<le> p) (probabilities movies query)
     \<and> list_all (\<lambda>p. 0 \<le> p) (amplified_probs 0 movies query)
     \<and> 2 / 3 < probabilities movies query ! max_idx movies query
     \<and> 1 < boost (max_idx movies query) (probabilities movies query) ! max_idx movies query
     \<and> 0 < other_sum (max_idx movies query) (probabilities movies query)
     \<and> reduction_factor (max_idx movies query) (probabilities movies query) < 0
     \<and> (\<exists>i. i < length movies \<and> amplified_probs (iterations movies) movies query ! i < 0)"
proof -
  let ?ms = "[blockbuster, sleeper]"
  have ps: "probabilities ?ms [] = [4 / 5, 1 / 5]"
    by code_simp
  have ps0: "amplified_probs 0 ?ms [] = probabilities ?ms []"
    by (simp add: amplified_probs_def)
  have nonneg: "list_all (\<lambda>p. 0 \<le> p) (probabilities ?ms [])"
    unfolding ps by simp
  have nonneg0: "list_all (\<lambda>p. 0 \<le> p) (amplified_probs 0 ?ms [])"
    unfolding ps0 by (rule nonneg)
  have a: "?ms \<noteq> []
     \<and> 2 / 3 < probabilities ?ms [] ! max_idx ?ms []
     \<and> 1 < boost (max_idx ?ms []) (probabilities ?ms []) ! max_idx ?ms []
     \<and> 0 < other_sum (max_idx ?ms []) (probabilities ?ms [])
     \<and> reduction_factor (max_idx ?ms []) (probabilities ?ms []) < 0"
    by code_simp
  have b: "1 < length ?ms \<and> amplified_probs (iterations ?ms) ?ms [] ! 1 < 0"
    by code_simp
  from b have c: "\<exists>i. i < length ?ms \<and> amplified_probs (iterations ?ms) ?ms [] ! i < 0" ..
  show ?thesis
    using a nonneg nonneg0 c by (intro exI [of _ ?ms] exI [of _ "[]"]) blast
qed

lemma amplified_probs_dominant:
  "amplified_probs (iterations [blockbuster, sleeper]) [blockbuster, sleeper] []
     = [6 / 5, - (1 / 5)]"
  by code_simp

section \<open>The maximum search of classical\_search\<close>

lemma fold_classical_step_keep:
  "\<forall>m\<in>set ms. classical_score qw m \<le> snd st \<Longrightarrow> fold (classical_step qw) ms st = st"
  by (induction ms arbitrary: st) (auto simp: classical_step_def Let_def)

text \<open>
  The loop ends on the first candidate of largest score, provided that score exceeds
  the \<open>highest_score\<close> the loop starts from.
\<close>

lemma fold_classical_step_first_max:
  assumes "i < length ms"
    and "snd st < classical_score qw (ms ! i)"
    and "\<forall>j<i. classical_score qw (ms ! j) < classical_score qw (ms ! i)"
    and "\<forall>j<length ms. classical_score qw (ms ! j) \<le> classical_score qw (ms ! i)"
  shows "fold (classical_step qw) ms st = (Some (ms ! i), classical_score qw (ms ! i))"
  using assms
proof (induction ms arbitrary: i st)
  case Nil
  then show ?case by simp
next
  case (Cons m ms)
  show ?case
  proof (cases i)
    case 0
    have "\<forall>x\<in>set ms. classical_score qw x \<le> classical_score qw m"
    proof
      fix x assume "x \<in> set ms"
      then obtain j where "j < length ms" "ms ! j = x" by (auto simp: in_set_conv_nth)
      then show "classical_score qw x \<le> classical_score qw m"
        using Cons.prems(4) 0 by (auto dest: spec [of _ "Suc j"])
    qed
    moreover have "classical_step qw m st = (Some m, classical_score qw m)"
      using Cons.prems(2) 0 by (simp add: classical_step_def)
    ultimately show ?thesis
      using 0 by (simp add: fold_classical_step_keep)
  next
    case (Suc i')
    let ?st = "classical_step qw m st"
    have lt: "classical_score qw m < classical_score qw (ms ! i')"
      using Cons.prems(3) Suc by (auto dest: spec [of _ 0])
    have a: "i' < length ms" using Cons.prems(1) Suc by simp
    have b: "snd ?st < classical_score qw (ms ! i')"
      using Cons.prems(2) lt Suc by (simp add: classical_step_def Let_def)
    have c: "\<forall>j<i'. classical_score qw (ms ! j) < classical_score qw (ms ! i')"
      using Cons.prems(3) Suc by (auto dest: spec [of _ "Suc j" for j])
    have d: "\<forall>j<length ms. classical_score qw (ms ! j) \<le> classical_score qw (ms ! i')"
      using Cons.prems(4) Suc by (auto dest: spec [of _ "Suc j" for j])
    show ?thesis using Cons.IH [OF a b c d] Suc by simp
  qed
qed

lemma classical_search_first_max_above_start:
  assumes "i < length movies"
    and "- 1 < classical_scores movies query ! i"
    and "\<forall>j<length movies. classical_scores movies query ! j \<le> classical_scores movies query ! i"
    and "\<forall>j<i. classical_scores movies query ! j < classical_scores movies query ! i"
  shows "classical_search movies query = Some (id_val (movies ! i))"
proof -
  let ?qw = "query_words_of query"
  have ne: "movies \<noteq> []" using assms(1) by auto
  have a: "snd (None :: movie option, - 1 :: rat) < classical_score ?qw (movies ! i)"
    using assms(1,2) by (simp add: classical_scores_def)
  have b: "\<forall>j<i. classical_score ?qw (movies ! j) < classical_score ?qw (movies ! i)"
    using assms(1,4) by (simp add: classical_scores_def)
  have c: "\<forall>j<length movies. classical_score ?qw (movies ! j) \<le> classical_score ?qw (movies ! i)"
    using assms(1,3) by (simp add: classical_scores_def)
  show ?thesis
    using ne fold_classical_step_first_max [OF assms(1) a b c]
    by (simp add: classical_search_def)
qed

lemma classical_score_nonneg: "0 \<le> get_popularity m \<Longrightarrow> 0 \<le> classical_score qw m"
  by (simp add: classical_score_def Let_def)

text \<open>
  Claim C7. For every non-empty list of candidates (popularity non-negative, as the data
  model has it) and every query, \<open>classical_search\<close> returns the id of the earliest
  candidate that attains the maximum score: if the candidate at index \<open>i\<close> has a
  score no smaller than any other and strictly larger than every earlier one, its id
  is returned. In particular the first of several tied candidates wins.
\<close>

theorem classical_search_first_max:
  assumes "i < length movies"
    and "\<forall>m\<in>set movies. 0 \<le> get_popularity m"
    and "\<forall>j<length movies. classical_scores movies query ! j \<le> classical_scores movies query ! i"
    and "\<forall>j<i. classical_scores movies query ! j < classical_scores movies query ! i"
  shows "classical_search movies query = Some (id_val (movies ! i))"
proof -
  have "0 \<le> classical_score (query_words_of query) (movies ! i)"
    using assms(1,2) by (simp add: classical_score_nonneg)
  then have above: "- 1 < classical_scores movies query ! i"
    using assms(1) by (simp add: classical_scores_def)
  show ?thesis
    by (rule classical_search_first_max_above_start [OF assms(1) above assms(3) assms(4)])
qed

theorem classical_search_first_max_witness:
  "classical_scores [alien, matrix_reloaded, matrix_revolutions] ''matrix'' = [0, 5, 5]
   \<and> classical_search [alien, matrix_reloaded, matrix_revolutions] ''matrix'' = Some 2"
proof -
  let ?ms = "[alien, matrix_reloaded, matrix_revolutions]"
  have cs: "classical_scores ?ms ''matrix'' = [0, 5, 5]" by code_simp
  have h1: "1 < length ?ms" by simp
  have h2: "\<forall>m\<in>set ?ms. 0 \<le> get_popularity m" by code_simp
  have h3: "\<forall>j<length ?ms. classical_scores ?ms ''matrix'' ! j \<le> classical_scores ?ms ''matrix'' ! 1"
    unfolding cs by (auto simp: less_Suc_eq)
  have h4: "\<forall>j<1. classical_scores ?ms ''matrix'' ! j < classical_scores ?ms ''matrix'' ! 1"
    unfolding cs by simp
  have "classical_search ?ms ''matrix'' = Some (id_val (?ms ! 1))"
    by (rule classical_search_first_max [OF h1 h2 h3 h4])
  moreover have "id_val (?ms ! 1) = 2" by code_simp
  ultimately show ?thesis using cs by simp
qed

section \<open>Popularity\<close>

lemma get_popularity_update: "get_popularity (m\<lparr>popularity := Some p\<rparr>) = p"
  by (simp add: get_popularity_def)

lemma get_title_update: "get_title (m\<lparr>popularity := Some p\<rparr>) = get_title m"
  by (simp add: get_title_def)

lemma get_overview_update: "get_overview (m\<lparr>popularity := Some p\<rparr>) = get_overview m"
  by (simp add: get_overview_def)

lemma classical_score_popularity:
  "classical_score qw (m\<lparr>popularity := Some p\<rparr>)
     = classical_score qw m + (p - get_popularity m) / 20"
  by (simp add: classical_score_def Let_def diff_divide_distrib get_popularity_update
      get_title_update get_overview_update)

lemma quantum_score_popularity:
  "quantum_score query (m\<lparr>popularity := Some p\<rparr>)
     = quantum_score query m + (p - get_popularity m) / 20"
  by (simp add: quantum_score_def Let_def diff_divide_distrib get_popularity_update
      get_title_update get_overview_update)

text \<open>
  Claim C9. Raising the popularity of the candidate at index \<open>i\<close> to \<open>p\<close>, with its
  title and overview and all other candidates as they were, does not lower its score
  in \<open>classical_search\<close> nor in \<open>quantum_search\<close>, and leaves the score of every
  other candidate as it was; so the score does not drop against theirs either.
\<close>

theorem score_monotone_popularity:
  assumes "i < length movies" and "get_popularity (movies ! i) \<le> p"
  shows "classical_scores movies query ! i
           \<le> classical_scores (movies[i := (movies ! i)\<lparr>popularity := Some p\<rparr>]) query ! i
       \<and> quantum_scores movies query ! i
           \<le> quantum_scores (movies[i := (movies ! i)\<lparr>popularity := Some p\<rparr>]) query ! i
       \<and> (\<forall>j<length movies. j \<noteq> i \<longrightarrow>
            classical_scores (movies[i := (movies ! i)\<lparr>popularity := Some p\<rparr>]) query ! j
              = classical_scores movies query ! j
          \<and> quantum_scores (movies[i := (movies ! i)\<lparr>popularity := Some p\<rparr>]) query ! j
              = quantum_scores movies query ! j)"
  using assms
  by (simp add: classical_scores_def quantum_scores_def classical_score_popularity
      quantum_score_popularity)

theorem score_monotone_popularity_witness:
  "get_popularity ([the_matrix, matrix_reloaded] ! 1) \<le> 100
   \<and> classical_scores [the_matrix, matrix_reloaded] ''matrix hacker'' ! 1
       \<le> classical_scores ([the_matrix, matrix_reloaded]
            [1 := ([the_matrix, matrix_reloaded] ! 1)\<lparr>popularity := Some 100\<rparr>]) ''matrix hacker'' ! 1
   \<and> quantum_scores [the_matrix, matrix_reloaded] ''matrix hacker'' ! 1
       \<le> quantum_scores ([the_matrix, matrix_reloaded]
            [1 := ([the_matrix, matrix_reloaded] ! 1)\<lparr>popularity := Some 100\<rparr>]) ''matrix hacker'' ! 1
   \<and> classical_scores ([the_matrix, matrix_reloaded]
            [1 := ([the_matrix, matrix_reloaded] ! 1)\<lparr>popularity := Some 100\<rparr>]) ''matrix hacker'' ! 0
       = classical_scores [the_matrix, matrix_reloaded] ''matrix hacker'' ! 0"
proof -
  have h1: "1 < length [the_matrix, matrix_reloaded]" by simp
  have h2: "get_popularity ([the_matrix, matrix_reloaded] ! 1) \<le> 100" by code_simp
  show ?thesis
    using h2 score_monotone_popularity [OF h1 h2, of "''matrix hacker''"] by simp
qed

section \<open>The two scorers compared\<close>

lemma split_from_sublist: "t \<in> set (split_from cur s) \<Longrightarrow> sublist t (cur @ s)"
proof (induction s arbitrary: cur)
  case Nil
  then show ?case by (simp split: if_splits)
next
  case (Cons c cs)
  show ?case
  proof (cases "isspace c")
    case True
    have tail: "t \<in> set (split_from [] cs) \<Longrightarrow> sublist t (cur @ c # cs)"
    proof -
      assume "t \<in> set (split_from [] cs)"
      then have "sublist t cs" using Cons.IH [of "[]"] by simp
      then obtain ps ss where "cs = ps @ t @ ss" by (auto simp: sublist_def)
      then have "cur @ c # cs = (cur @ c # ps) @ t @ ss" by simp
      then show ?thesis unfolding sublist_def by blast
    qed
    show ?thesis
    proof (cases "cur = []")
      case True
      with \<open>isspace c\<close> Cons.prems tail show ?thesis by simp
    next
      case False
      with \<open>isspace c\<close> Cons.prems tail show ?thesis by auto
    qed
  next
    case False
    then have "t \<in> set (split_from (cur @ [c]) cs)" using Cons.prems by simp
    then show ?thesis using Cons.IH [of "cur @ [c]"] by simp
  qed
qed

text \<open>A token of \<open>s.split()\<close> is a substring of \<open>s\<close>.\<close>

lemma py_split_sublist: "t \<in> set (py_split s) \<Longrightarrow> sublist t s"
  using split_from_sublist [of t "[]" s] by (simp add: py_split_def)

lemma token_matches_le:
  "card (set qs \<inter> set (py_split s)) \<le> length (filter (\<lambda>t. sublist t s) qs)"
proof -
  have "set qs \<inter> set (py_split s) \<subseteq> set (filter (\<lambda>t. sublist t s) qs)"
    by (auto dest: py_split_sublist)
  then have "card (set qs \<inter> set (py_split s)) \<le> card (set (filter (\<lambda>t. sublist t s) qs))"
    by (intro card_mono) auto
  also have "\<dots> \<le> length (filter (\<lambda>t. sublist t s) qs)" by (rule card_length)
  finally show ?thesis .
qed

lemma token_matches_eq:
  assumes "distinct qs" and "\<forall>t\<in>set qs. sublist t s \<longrightarrow> t \<in> set (py_split s)"
  shows "card (set qs \<inter> set (py_split s)) = length (filter (\<lambda>t. sublist t s) qs)"
proof -
  have eq: "set qs \<inter> set (py_split s) = set (filter (\<lambda>t. sublist t s) qs)"
    using assms(2) by (auto dest: py_split_sublist)
  have d: "distinct (filter (\<lambda>t. sublist t s) qs)" using assms(1) by simp
  show ?thesis unfolding eq using distinct_card [OF d] .
qed

lemma sum_const_3: "(\<Sum>x\<leftarrow>xs. (3::nat)) = length xs * 3"
  by (induction xs) simp_all

lemma sum_const_1: "(\<Sum>x\<leftarrow>xs. Suc 0) = length xs"
  by (induction xs) simp_all

lemma classical_score_le_quantum_score:
  "classical_score (query_words_of query) m \<le> quantum_score query m"
proof -
  let ?qs = "py_split (py_lower query)"
  have t: "card (set ?qs \<inter> set (py_split (py_lower (get_title m))))
             \<le> length (filter (\<lambda>t. sublist t (py_lower (get_title m))) ?qs)"
    by (rule token_matches_le)
  have o: "card (set ?qs \<inter> set (py_split (py_lower (get_overview m))))
             \<le> length (filter (\<lambda>t. sublist t (py_lower (get_overview m))) ?qs)"
    by (rule token_matches_le)
  have "card (set ?qs \<inter> set (py_split (py_lower (get_title m)))) * 3
        + card (set ?qs \<inter> set (py_split (py_lower (get_overview m))))
      \<le> length (filter (\<lambda>t. sublist t (py_lower (get_title m))) ?qs) * 3
        + length (filter (\<lambda>t. sublist t (py_lower (get_overview m))) ?qs)"
    using t o by linarith
  then have "(of_nat (card (set ?qs \<inter> set (py_split (py_lower (get_title m)))) * 3
        + card (set ?qs \<inter> set (py_split (py_lower (get_overview m))))) :: rat)
      \<le> of_nat (length (filter (\<lambda>t. sublist t (py_lower (get_title m))) ?qs) * 3
        + length (filter (\<lambda>t. sublist t (py_lower (get_overview m))) ?qs))"
    by (rule of_nat_mono)
  then show ?thesis
    by (simp add: classical_score_def quantum_score_def query_words_of_def Let_def
        sum_const_3 sum_const_1)
qed

lemma classical_score_eq_quantum_score:
  assumes "whole_token_query query m"
  shows "classical_score (query_words_of query) m = quantum_score query m"
proof -
  let ?qs = "py_split (py_lower query)"
  have d: "distinct ?qs" using assms by (simp add: whole_token_query_def Let_def)
  have t: "card (set ?qs \<inter> set (py_split (py_lower (get_title m))))
             = length (filter (\<lambda>t. sublist t (py_lower (get_title m))) ?qs)"
    using assms by (intro token_matches_eq [OF d]) (simp add: whole_token_query_def Let_def)
  have o: "card (set ?qs \<inter> set (py_split (py_lower (get_overview m))))
             = length (filter (\<lambda>t. sublist t (py_lower (get_overview m))) ?qs)"
    using assms by (intro token_matches_eq [OF d]) (simp add: whole_token_query_def Let_def)
  show ?thesis
    by (simp add: classical_score_def quantum_score_def query_words_of_def Let_def
        sum_const_3 sum_const_1 t o)
qed

text \<open>
  The claim C2 as stated, that the two score vectors are equal, fails: on The Matrix
  the query "mat" scores 4 in \<open>classical_search\<close> (no token of the title is "mat")
  and 7 in \<open>quantum_search\<close> ("mat" is inside "the matrix"); the query
  "matrix matrix" scores 7 in the former (the set has one term) and 10 in the latter
  (the list has two).
\<close>

theorem scorer_shared_counterexample:
  "classical_scores [the_matrix] ''mat'' = [4] \<and> quantum_scores [the_matrix] ''mat'' = [7]
   \<and> classical_scores [the_matrix] ''matrix matrix'' = [7]
   \<and> quantum_scores [the_matrix] ''matrix matrix'' = [10]"
  by code_simp

text \<open>
  Claim C2, amended. For every candidate list and query the two score vectors have the
  same length, and at every index the score of \<open>quantum_search\<close> is at least the score
  of \<open>classical_search\<close>; the two are equal at every candidate for which the query
  terms are pairwise distinct and each term that occurs inside the lower-cased title or
  overview is one of its whitespace-separated tokens.
\<close>

theorem quantum_scores_ge_classical_scores:
  "length (classical_scores movies query) = length (quantum_scores movies query)
   \<and> (\<forall>i<length movies.
         classical_scores movies query ! i \<le> quantum_scores movies query ! i
       \<and> (whole_token_query query (movies ! i) \<longrightarrow>
            classical_scores movies query ! i = quantum_scores movies query ! i))"
  by (simp add: classical_scores_def quantum_scores_def classical_score_le_quantum_score
      classical_score_eq_quantum_score)

theorem quantum_scores_ge_classical_scores_witness:
  "classical_scores [the_matrix, matrix_reloaded] ''matrix hacker'' ! 0
     \<le> quantum_scores [the_matrix, matrix_reloaded] ''matrix hacker'' ! 0
   \<and> classical_scores [the_matrix, matrix_reloaded] ''matrix hacker'' ! 1
     = quantum_scores [the_matrix, matrix_reloaded] ''matrix hacker'' ! 1"
proof -
  have h: "whole_token_query ''matrix hacker'' ([the_matrix, matrix_reloaded] ! 1)"
    by code_simp
  have "(0::nat) < length [the_matrix, matrix_reloaded]"
    and "(1::nat) < length [the_matrix, matrix_reloaded]" by simp_all
  then show ?thesis
    using h quantum_scores_ge_classical_scores [of "[the_matrix, matrix_reloaded]" "''matrix hacker''"]
    by blast
qed

section \<open>The id returned by quantum\_search\<close>

text \<open>
  The bisection stays between its bounds, whatever the running sums are (they need not
  increase when a weight is negative), so the sampled index and the index the anomaly
  branch picks are indices of the list: an id that \<open>quantum_search\<close> returns is the id
  of one of the candidates.
\<close>

lemma bisect_bounds: "lo \<le> hi \<Longrightarrow> lo \<le> bisect a x lo hi \<and> bisect a x lo hi \<le> hi"
proof (induction a x lo hi rule: bisect.induct)
  case (1 a x lo hi)
  show ?case
  proof (cases "lo < hi")
    case False
    with "1.prems" show ?thesis by (subst (1 2) bisect.simps) simp
  next
    case True
    let ?mid = "(lo + hi) div 2"
    have m: "lo \<le> ?mid" "?mid < hi" using True by auto
    show ?thesis
    proof (cases "x < a ! ?mid")
      case left: True
      have "lo \<le> bisect a x lo ?mid \<and> bisect a x lo ?mid \<le> ?mid"
        using "1.IH"(1) [OF True refl left] m by simp
      then show ?thesis using True left m by (subst (1 2) bisect.simps) (simp add: Let_def)
    next
      case right: False
      have "?mid + 1 \<le> bisect a x (?mid + 1) hi \<and> bisect a x (?mid + 1) hi \<le> hi"
        using "1.IH"(2) [OF True refl right] m by simp
      then show ?thesis using True right m by (subst (1 2) bisect.simps) (simp add: Let_def)
    qed
  qed
qed

lemma choices_less: "0 < n \<Longrightarrow> choices n weights u = Inr c \<Longrightarrow> c < n"
  using bisect_bounds [of 0 "n - 1" "accumulate weights" "u * last (accumulate weights)"]
  by (auto simp: choices_def Let_def split: if_splits)

lemma anomaly_less:
  assumes "rng_ok g" and "c < n"
  shows "anomaly n g c < n"
proof -
  let ?av = "remove1 c [0..<n]"
  have pick: "?av ! randbelow g (length ?av) < n" if ne: "?av \<noteq> []"
  proof -
    have "0 < length ?av" using ne by simp
    then have "randbelow g (length ?av) < length ?av"
      using assms(1) unfolding rng_ok_def by blast
    then have "?av ! randbelow g (length ?av) \<in> set ?av" by (rule nth_mem)
    moreover have "set ?av \<subseteq> set [0..<n]" by (rule set_remove1_subset)
    ultimately have "?av ! randbelow g (length ?av) \<in> set [0..<n]" by (rule rev_subsetD)
    then show ?thesis by simp
  qed
  show ?thesis
  proof (cases "u_anomaly g < 5 / 100")
    case False
    then show ?thesis using assms(2) unfolding anomaly_def by simp
  next
    case True
    show ?thesis
    proof (cases "?av = []")
      case True
      with \<open>u_anomaly g < 5 / 100\<close> assms(2) show ?thesis unfolding anomaly_def Let_def by simp
    next
      case False
      with \<open>u_anomaly g < 5 / 100\<close> pick show ?thesis unfolding anomaly_def Let_def by simp
    qed
  qed
qed

lemma quantum_search_returns_member:
  assumes "rng_ok g" and "quantum_search movies query g = Inr (Some i)"
  shows "i \<in> id_val ` set movies"
proof -
  let ?n = "length movies"
  let ?ch = "choices ?n (amplified_probs (iterations movies) movies query) (u_choices g)"
  have ne: "movies \<noteq> []"
  proof
    assume "movies = []"
    then have "quantum_search movies query g = Inr None" by (simp add: quantum_search_def)
    with assms(2) show False by simp
  qed
  have unf: "quantum_search movies query g =
      (case ?ch of Inl e \<Rightarrow> Inl e | Inr c \<Rightarrow> Inr (Some (id_val (movies ! anomaly ?n g c))))"
    using ne unfolding quantum_search_def Let_def by simp
  show ?thesis
  proof (cases ?ch)
    case (Inl e)
    with unf assms(2) show ?thesis by simp
  next
    case (Inr c)
    have "0 < ?n" using ne by simp
    then have "c < ?n" using Inr by (rule choices_less)
    then have "anomaly ?n g c < ?n" by (rule anomaly_less [OF assms(1)])
    then have "movies ! anomaly ?n g c \<in> set movies" by (rule nth_mem)
    moreover have "i = id_val (movies ! anomaly ?n g c)" using unf assms(2) Inr by simp
    ultimately show ?thesis by simp
  qed
qed

lemma rng_ok_steady: "rng_ok steady_rng"
  by (simp add: rng_ok_def steady_rng_def)

end
